theory Spec2Isabelle
  imports Main
begin

section \<open>The browser's WebSocket object\<close>

text \<open>
  \<^verbatim>\<open>WebSocketClient\<close> drives a browser \<^verbatim>\<open>WebSocket\<close>. The object is not part of the
  repository; it is modelled by what the client reads and calls: the \<^verbatim>\<open>readyState\<close>
  attribute, \<^verbatim>\<open>send\<close> (raises while CONNECTING, transmits while OPEN, discards the data
  afterwards) and \<^verbatim>\<open>close\<close> (starts the closing handshake once). The frames a socket
  has transmitted are kept with it, oldest first.
\<close>

datatype readyState = CONNECTING | OPEN | CLOSING | CLOSED

record 'b WebSocket =
  readyState :: readyState
  transmitted :: "'b list"

datatype exn = InvalidStateError | DecodeError | TypeError

definition new_WebSocket :: "'b WebSocket" where
  "new_WebSocket = \<lparr>readyState = CONNECTING, transmitted = []\<rparr>"

definition WebSocket_send :: "'b \<Rightarrow> 'b WebSocket \<Rightarrow> exn + 'b WebSocket" where
  "WebSocket_send d ws =
     (case readyState ws of
        CONNECTING \<Rightarrow> Inl InvalidStateError
      | OPEN \<Rightarrow> Inr (ws\<lparr>transmitted := transmitted ws @ [d]\<rparr>)
      | CLOSING \<Rightarrow> Inr ws
      | CLOSED \<Rightarrow> Inr ws)"

definition WebSocket_close :: "'b WebSocket \<Rightarrow> 'b WebSocket" where
  "WebSocket_close ws =
     (case readyState ws of
        CONNECTING \<Rightarrow> ws\<lparr>readyState := CLOSING\<rparr>
      | OPEN \<Rightarrow> ws\<lparr>readyState := CLOSING\<rparr>
      | CLOSING \<Rightarrow> ws
      | CLOSED \<Rightarrow> ws)"

section \<open>Messages\<close>

text \<open>
  The protobuf modules \<^verbatim>\<open>./proto/webapi_2\<close> and \<^verbatim>\<open>./proto/user_session_2\<close> are not
  among the sources. The messages carry the fields the code touches (\<^verbatim>\<open>logon\<close>,
  \<^verbatim>\<open>logonResult.resultCode\<close>, \<^verbatim>\<open>loggedOff\<close>); whatever else a client message holds is
  the type parameter \<open>'a\<close>, the content of a logged-off notice is \<open>'s\<close>. The codec is
  a parameter of every function that uses it: \<open>enc\<close> for
  \<^verbatim>\<open>WebAPI.ClientMsg.encode(m).finish()\<close>, and \<open>dec\<close> for \<^verbatim>\<open>WebAPI.ServerMsg.decode\<close>,
  which raises on bytes that are no message (\<open>None\<close>).
\<close>

record Logon =
  userName :: string
  password :: string
  clientAppId :: string
  clientVersion :: string

record 'a ClientMsg =
  logon :: "Logon option"
  body :: "'a option"

record LogonResult =
  resultCode :: int

record 's ServerMsg =
  logonResult :: "LogonResult option"
  loggedOff :: "'s option"

datatype error = ConnectionNotReadyError string

datatype 'r completion = Returned 'r | Threw exn

datatype promise = Fulfilled | Rejected exn

section \<open>Program state\<close>

text \<open>
  One record holds everything the two modules mutate: the console, the heap of
  WebSocket objects (a handle is an index; \<^verbatim>\<open>new WebSocket\<close> appends), the fields of
  the singleton \<^verbatim>\<open>WebSocketClient\<close> with its static \<^verbatim>\<open>instance\<close> slot, and the cells of
  the one mounted \<^verbatim>\<open>useMessageSender\<close> hook. \<open>wsClient_cell\<close> is the value last given
  to \<^verbatim>\<open>setWsClient\<close>; \<open>wsClient\<close> is the value the closures of the latest render see.
  Both are booleans: the only client object there is, or \<^verbatim>\<open>null\<close>.
\<close>

record ('a, 's, 'b) world =
  console :: "string list"
  sockets :: "'b WebSocket list"
  instance' :: bool
  socket :: "nat option"
  isLoggedIn :: bool
  isUserLogout :: bool
  wsClient_cell :: bool
  wsClient :: bool
  message :: "'s ServerMsg option"
  messageQueue :: "'a ClientMsg list"

text \<open>
  The four callback slots of the client hold closures over the program state, so they
  are kept beside the state, not inside it.
\<close>

record ('m, 'w) callbacks =
  onOpen :: "('w \<Rightarrow> 'w) option"
  onMessage :: "('m \<Rightarrow> 'w \<Rightarrow> 'w) option"
  onClose :: "('w \<Rightarrow> 'w) option"
  onError :: "('w \<Rightarrow> 'w) option"

definition no_callbacks :: "('m, 'w) callbacks" where
  "no_callbacks = \<lparr>onOpen = None, onMessage = None, onClose = None, onError = None\<rparr>"

definition log :: "string \<Rightarrow> ('a, 's, 'b) world \<Rightarrow> ('a, 's, 'b) world" where
  "log line w = w\<lparr>console := console w @ [line]\<rparr>"

text \<open>\<^verbatim>\<open>this.socket?.readyState\<close>\<close>

definition socket_readyState :: "('a, 's, 'b) world \<Rightarrow> readyState option" where
  "socket_readyState w =
     (case socket w of
        None \<Rightarrow> None
      | Some i \<Rightarrow> if i < length (sockets w) then Some (readyState (sockets w ! i)) else None)"

text \<open>\<^verbatim>\<open>this.socket?.close()\<close>\<close>

definition socket_close :: "('a, 's, 'b) world \<Rightarrow> ('a, 's, 'b) world" where
  "socket_close w =
     (case socket w of
        None \<Rightarrow> w
      | Some i \<Rightarrow>
          if i < length (sockets w)
          then w\<lparr>sockets := (sockets w)[i := WebSocket_close (sockets w ! i)]\<rparr>
          else w)"

section \<open>WebSocketClient\<close>

definition initSocket :: "('a, 's, 'b) world \<Rightarrow> ('a, 's, 'b) world" where
  "initSocket w =
     (let w1 = log ''Connecting to WebSocket ...'' w
      in w1\<lparr>sockets := sockets w1 @ [new_WebSocket], socket := Some (length (sockets w1))\<rparr>)"

definition closeSocket :: "('a, 's, 'b) world \<Rightarrow> ('a, 's, 'b) world" where
  "closeSocket w =
     (let w1 = log ''Closing connection ...'' w;
          w2 = socket_close w1
      in w2\<lparr>socket := None\<rparr>)"

definition send ::
  "('a ClientMsg \<Rightarrow> 'b) \<Rightarrow> 'a ClientMsg \<Rightarrow> ('a, 's, 'b) world
    \<Rightarrow> error option completion \<times> ('a, 's, 'b) world" where
  "send enc m w =
     (let w1 = log ''Sending message:'' w;
          encoded = enc m
      in if socket_readyState w1 = Some OPEN
         then (case socket w1 of
                 None \<Rightarrow> (Threw TypeError, w1)
               | Some i \<Rightarrow>
                   (case WebSocket_send encoded (sockets w1 ! i) of
                      Inl e \<Rightarrow> (Threw e, w1)
                    | Inr ws \<Rightarrow> (Returned None, w1\<lparr>sockets := (sockets w1)[i := ws]\<rparr>)))
         else (Returned (Some (ConnectionNotReadyError ''Connection is not ready'')), w1))"

definition close :: "('a, 's, 'b) world \<Rightarrow> ('a, 's, 'b) world" where
  "close w = closeSocket w"

definition isReady :: "('a, 's, 'b) world \<Rightarrow> bool" where
  "isReady w = (isLoggedIn w \<and> socket_readyState w = Some OPEN)"

text \<open>The message \<^verbatim>\<open>initiateLogon\<close> builds from the credentials written in the class.\<close>

definition clMsg :: "'a ClientMsg" where
  "clMsg =
     (let logonMsg = \<lparr>userName = ''cmetest'', password = ''pass'',
                       clientAppId = ''ConnamaraMultiSession'',
                       clientVersion = ''1.1.5038.15046''\<rparr>
      in \<lparr>logon = Some logonMsg, body = None\<rparr>)"

definition initiateLogon ::
  "('a ClientMsg \<Rightarrow> 'b) \<Rightarrow> ('a, 's, 'b) world \<Rightarrow> unit completion \<times> ('a, 's, 'b) world" where
  "initiateLogon enc w =
     (case send enc clMsg w of
        (Threw e, w1) \<Rightarrow> (Threw e, w1)
      | (Returned r, w1) \<Rightarrow> (Returned (), w1))"

text \<open>\<^verbatim>\<open>if (this.onX) this.onX(...)\<close>\<close>

definition call_opt :: "('w \<Rightarrow> 'w) option \<Rightarrow> 'w \<Rightarrow> 'w" where
  "call_opt f w = (case f of None \<Rightarrow> w | Some g \<Rightarrow> g w)"

definition onWsOpen ::
  "('a ClientMsg \<Rightarrow> 'b) \<Rightarrow> ('s ServerMsg, ('a, 's, 'b) world) callbacks \<Rightarrow> ('a, 's, 'b) world
    \<Rightarrow> unit completion \<times> ('a, 's, 'b) world" where
  "onWsOpen enc cbs w =
     (let w1 = log ''WebSocket connection opened'' w
      in case initiateLogon enc w1 of
           (Threw e, w2) \<Rightarrow> (Threw e, w2)
         | (Returned u, w2) \<Rightarrow> (Returned (), call_opt (onOpen cbs) w2))"

text \<open>
  \<^verbatim>\<open>onWsMessage\<close> is an \<^verbatim>\<open>async\<close> method: an exception raised in its body rejects the
  promise it returns, and nothing in the repository handles that promise. The frame
  is the content of \<^verbatim>\<open>event.data\<close>.
\<close>

definition onWsMessage ::
  "('b \<Rightarrow> 's ServerMsg option) \<Rightarrow> ('s ServerMsg, ('a, 's, 'b) world) callbacks \<Rightarrow> 'b
    \<Rightarrow> ('a, 's, 'b) world \<Rightarrow> promise \<times> ('a, 's, 'b) world" where
  "onWsMessage dec cbs frame w =
     (case dec frame of
        None \<Rightarrow> (Rejected DecodeError, w)
      | Some msg \<Rightarrow>
          (let w1 = (case logonResult msg of
                       None \<Rightarrow> w
                     | Some r \<Rightarrow>
                         (let wa = (if resultCode r = 0
                                    then log ''Logged in successfully!'' (w\<lparr>isLoggedIn := True\<rparr>)
                                    else w)
                          in if resultCode r \<noteq> 0
                             then socket_close (log ''Login failed!'' wa)
                             else wa));
               w2 = (if loggedOff msg \<noteq> None then log ''Logged Off ...'' w1 else w1)
           in (Fulfilled, call_opt (map_option (\<lambda>f. f msg) (onMessage cbs)) w2)))"

definition onWsClose ::
  "('s ServerMsg, ('a, 's, 'b) world) callbacks \<Rightarrow> ('a, 's, 'b) world \<Rightarrow> ('a, 's, 'b) world" where
  "onWsClose cbs w =
     (let w1 = log ''WebSocket connection closed'' w
      in if \<not> isUserLogout w1
         then (let w2 = closeSocket w1;
                   w3 = call_opt (onClose cbs) w2;
                   w4 = log ''Reconnecting ...'' w3
               in initSocket w4)
         else w1)"

definition onWsError ::
  "('s ServerMsg, ('a, 's, 'b) world) callbacks \<Rightarrow> ('a, 's, 'b) world \<Rightarrow> ('a, 's, 'b) world" where
  "onWsError cbs w = call_opt (onError cbs) (log ''WebSocket error:'' w)"

text \<open>The constructor and \<^verbatim>\<open>getInstance\<close>: the socket is created with the one instance.\<close>

definition WebSocketClient_new :: "('a, 's, 'b) world \<Rightarrow> ('a, 's, 'b) world" where
  "WebSocketClient_new w = (if instance' w then w else initSocket (w\<lparr>instance' := True\<rparr>))"

definition getInstance :: "('a, 's, 'b) world \<Rightarrow> ('a, 's, 'b) world" where
  "getInstance w = (if \<not> instance' w then (WebSocketClient_new w)\<lparr>instance' := True\<rparr> else w)"

section \<open>useMessageSender\<close>

definition hook_callbacks :: "('s ServerMsg, ('a, 's, 'b) world) callbacks" where
  "hook_callbacks =
     \<lparr>onOpen = Some (\<lambda>w. w),
      onMessage = Some (\<lambda>msg w. (log ''Got message'' w)\<lparr>message := Some msg\<rparr>),
      onClose = Some (\<lambda>w. w),
      onError = Some (\<lambda>w. log ''WebSocket error:'' w)\<rparr>"

text \<open>The effect with no dependencies: it runs once, when the component mounts.\<close>

definition effect_mount ::
  "('a, 's, 'b) world \<Rightarrow> ('s ServerMsg, ('a, 's, 'b) world) callbacks \<times> ('a, 's, 'b) world" where
  "effect_mount w =
     (let w1 = getInstance w;
          w2 = w1\<lparr>wsClient_cell := True\<rparr>
      in (hook_callbacks, w2))"

definition sendMessage ::
  "('a ClientMsg \<Rightarrow> 'b) \<Rightarrow> 'a ClientMsg \<Rightarrow> ('a, 's, 'b) world \<Rightarrow> ('a, 's, 'b) world" where
  "sendMessage enc msg w =
     (if \<not> wsClient w \<or> isReady w = False
      then (let w1 = log ''Sending message in-queue:'' w
            in w1\<lparr>messageQueue := messageQueue w1 @ [msg]\<rparr>)
      else (case send enc msg w of
              (Threw e, w1) \<Rightarrow> log ''Error sending message:'' w1
            | (Returned r, w1) \<Rightarrow> log ''Sending message: Done!'' w1))"

text \<open>
  The \<^verbatim>\<open>while\<close> loop of the second effect. A message that \<^verbatim>\<open>sendMessage\<close> puts back
  keeps the queue non-empty, so the loop need not end: \<open>None\<close> is the run that never
  leaves it.
\<close>

partial_function (option) dequeue ::
  "('a ClientMsg \<Rightarrow> 'b) \<Rightarrow> ('a, 's, 'b) world \<Rightarrow> ('a, 's, 'b) world option" where
  "dequeue enc w =
     (case messageQueue w of
        [] \<Rightarrow> Some w
      | msg # rest \<Rightarrow>
          dequeue enc (sendMessage enc msg
                         (log ''Sending message de-queue:'' (w\<lparr>messageQueue := rest\<rparr>))))"

text \<open>The effect with dependency list \<^verbatim>\<open>[wsClient]\<close>.\<close>

definition effect_wsClient ::
  "('a ClientMsg \<Rightarrow> 'b) \<Rightarrow> ('a, 's, 'b) world \<Rightarrow> ('a, 's, 'b) world option" where
  "effect_wsClient enc w =
     (if wsClient w \<and> isReady w \<and> length (messageQueue w) > 0 then dequeue enc w else Some w)"

section \<open>The running program\<close>

text \<open>
  What can happen to the program, one event at a time. React runs both effects when
  the component mounts (once: a mounted hook has called \<^verbatim>\<open>setWsClient\<close>), and the
  second one again after a render in which \<^verbatim>\<open>wsClient\<close> differs from the render
  before; \<^verbatim>\<open>setMessage\<close> causes renders too, but they run no effect and change
  nothing else. The application calls the \<^verbatim>\<open>sendMessage\<close> of the
  latest render, and may call the public \<^verbatim>\<open>send()\<close> and \<^verbatim>\<open>close()\<close> of the client once
  it exists. A socket fires
  \<^verbatim>\<open>open\<close> once, on leaving CONNECTING; \<^verbatim>\<open>close\<close> once, on becoming CLOSED; the body of
  the message handler runs after an \<^verbatim>\<open>await\<close>, so possibly after the socket has left
  OPEN. A handler that raises is reported by the browser and changes nothing more.
\<close>

datatype ('a, 'b) event =
    Mount
  | Render
  | SendMessage "'a ClientMsg"
  | UserSend "'a ClientMsg"
  | UserClose
  | WsOpen nat
  | WsMessage nat 'b
  | WsClose nat
  | WsError nat

type_synonym ('a, 's, 'b) program =
  "('s ServerMsg, ('a, 's, 'b) world) callbacks \<times> ('a, 's, 'b) world"

definition set_readyState :: "nat \<Rightarrow> readyState \<Rightarrow> ('a, 's, 'b) world \<Rightarrow> ('a, 's, 'b) world" where
  "set_readyState i st w = w\<lparr>sockets := (sockets w)[i := (sockets w ! i)\<lparr>readyState := st\<rparr>]\<rparr>"

fun step ::
  "('a ClientMsg \<Rightarrow> 'b) \<Rightarrow> ('b \<Rightarrow> 's ServerMsg option) \<Rightarrow> ('a, 'b) event
    \<Rightarrow> ('a, 's, 'b) program \<Rightarrow> ('a, 's, 'b) program option" where
  "step enc dec Mount (cbs, w) =
     (if wsClient_cell w then Some (cbs, w)
      else case effect_mount w of
             (cbs', w') \<Rightarrow> map_option (Pair cbs') (effect_wsClient enc w'))"
| "step enc dec Render (cbs, w) =
     (if wsClient_cell w \<noteq> wsClient w
      then map_option (Pair cbs) (effect_wsClient enc (w\<lparr>wsClient := wsClient_cell w\<rparr>))
      else Some (cbs, w))"
| "step enc dec (SendMessage m) (cbs, w) = Some (cbs, sendMessage enc m w)"
| "step enc dec (UserSend m) (cbs, w) =
     (if instance' w then Some (cbs, snd (send enc m w)) else Some (cbs, w))"
| "step enc dec UserClose (cbs, w) = (if instance' w then Some (cbs, close w) else Some (cbs, w))"
| "step enc dec (WsOpen i) (cbs, w) =
     (if i < length (sockets w) \<and> readyState (sockets w ! i) = CONNECTING
      then Some (cbs, snd (onWsOpen enc cbs (set_readyState i OPEN w)))
      else Some (cbs, w))"
| "step enc dec (WsMessage i frame) (cbs, w) =
     (if i < length (sockets w) \<and> readyState (sockets w ! i) \<noteq> CONNECTING
      then Some (cbs, snd (onWsMessage dec cbs frame w))
      else Some (cbs, w))"
| "step enc dec (WsClose i) (cbs, w) =
     (if i < length (sockets w) \<and> readyState (sockets w ! i) \<noteq> CLOSED
      then Some (cbs, onWsClose cbs (set_readyState i CLOSED w))
      else Some (cbs, w))"
| "step enc dec (WsError i) (cbs, w) =
     (if i < length (sockets w) then Some (cbs, onWsError cbs w) else Some (cbs, w))"

fun run ::
  "('a ClientMsg \<Rightarrow> 'b) \<Rightarrow> ('b \<Rightarrow> 's ServerMsg option) \<Rightarrow> ('a, 'b) event list
    \<Rightarrow> ('a, 's, 'b) program \<Rightarrow> ('a, 's, 'b) program option" where
  "run enc dec [] s = Some s"
| "run enc dec (e # es) s =
     (case step enc dec e s of None \<Rightarrow> None | Some s' \<Rightarrow> run enc dec es s')"

definition init :: "('a, 's, 'b) program" where
  "init =
     (no_callbacks,
      \<lparr>console = [], sockets = [], instance' = False, socket = None, isLoggedIn = False,
       isUserLogout = False, wsClient_cell = False, wsClient = False, message = None,
       messageQueue = []\<rparr>)"

section \<open>What can be seen of a state\<close>

text \<open>
  The part of a state that the statements below look at: the two flags and \<^verbatim>\<open>isReady\<close>,
  the handle, and for every socket created so far, oldest first, its state and the
  frames it has transmitted; last the hook's queue.
\<close>

record ('a, 'b) view =
  loggedIn :: bool
  userLogout :: bool
  ready :: bool
  handle :: "nat option"
  states :: "readyState list"
  frames :: "'b list list"
  queue :: "'a ClientMsg list"

definition view :: "('a, 's, 'b) program \<Rightarrow> ('a, 'b) view" where
  "view s =
     \<lparr>loggedIn = isLoggedIn (snd s), userLogout = isUserLogout (snd s), ready = isReady (snd s),
      handle = socket (snd s), states = map readyState (sockets (snd s)),
      frames = map transmitted (sockets (snd s)), queue = messageQueue (snd s)\<rparr>"

section \<open>Concrete scenarios\<close>

text \<open>
  A small codec and a world to run the definitions on: the logon message encodes to
  0, a message with body \<open>n\<close> to \<open>n + 2\<close>; frame 0 decodes to an accepted logon,
  frame 1 to a refused one, and nothing else decodes.
\<close>

definition demo_enc :: "nat ClientMsg \<Rightarrow> nat" where
  "demo_enc m =
     (case logon m of
        Some l \<Rightarrow> 0
      | None \<Rightarrow> (case body m of None \<Rightarrow> 1 | Some n \<Rightarrow> n + 2))"

definition logon_ok :: "unit ServerMsg" where
  "logon_ok = \<lparr>logonResult = Some \<lparr>resultCode = 0\<rparr>, loggedOff = None\<rparr>"

definition logon_refused :: "unit ServerMsg" where
  "logon_refused = \<lparr>logonResult = Some \<lparr>resultCode = 7\<rparr>, loggedOff = None\<rparr>"

definition demo_dec :: "nat \<Rightarrow> unit ServerMsg option" where
  "demo_dec n = (if n = 0 then Some logon_ok else if n = 1 then Some logon_refused else None)"

definition app_msg :: "nat \<Rightarrow> nat ClientMsg" where
  "app_msg n = \<lparr>logon = None, body = Some n\<rparr>"

text \<open>
  A mounted, rendered program whose only socket is in the given state, has sent the
  logon, and has one message waiting in the queue.
\<close>

definition demo_world :: "readyState \<Rightarrow> (nat, unit, nat) world" where
  "demo_world st =
     \<lparr>console = [], sockets = [\<lparr>readyState = st, transmitted = [demo_enc clMsg]\<rparr>],
      instance' = True, socket = Some 0, isLoggedIn = False, isUserLogout = False,
      wsClient_cell = True, wsClient = True, message = None, messageQueue = [app_msg 5]\<rparr>"

text \<open>A subscriber that writes down whether the client is ready when it is called.\<close>

definition observer :: "unit ServerMsg \<Rightarrow> (nat, unit, nat) world \<Rightarrow> (nat, unit, nat) world" where
  "observer msg w = log (if isReady w then ''ready'' else ''not ready'') w"

section \<open>An invariant of the running program\<close>

text \<open>
  What every reachable state satisfies: the subscriber is the hook or nobody; before
  the client exists there is no socket; the handle points into the heap; a socket
  that is not the current one has had \<^verbatim>\<open>close()\<close> called on it; a socket that is
  still connecting has transmitted nothing, an open one has, and whatever a socket
  transmitted starts with the logon.
\<close>

definition inv :: "('a ClientMsg \<Rightarrow> 'b) \<Rightarrow> ('a, 's, 'b) program \<Rightarrow> bool" where
  "inv enc s =
     (case s of (cbs, w) \<Rightarrow>
        (cbs = no_callbacks \<or> cbs = hook_callbacks) \<and>
        (\<not> instance' w \<longrightarrow> sockets w = [] \<and> socket w = None) \<and>
        (\<forall>i. socket w = Some i \<longrightarrow> i < length (sockets w)) \<and>
        (\<forall>j < length (sockets w). socket w \<noteq> Some j \<longrightarrow>
           readyState (sockets w ! j) = CLOSING \<or> readyState (sockets w ! j) = CLOSED) \<and>
        (\<forall>j < length (sockets w).
           (readyState (sockets w ! j) = CONNECTING \<longrightarrow> transmitted (sockets w ! j) = []) \<and>
           (readyState (sockets w ! j) = OPEN \<longrightarrow> transmitted (sockets w ! j) \<noteq> []) \<and>
           (transmitted (sockets w ! j) \<noteq> [] \<longrightarrow> hd (transmitted (sockets w ! j)) = enc clMsg)))"

section \<open>Basic facts\<close>

lemmas model_defs = new_WebSocket_def WebSocket_send_def WebSocket_close_def no_callbacks_def log_def
  socket_readyState_def socket_close_def initSocket_def closeSocket_def send_def close_def isReady_def
  initiateLogon_def call_opt_def onWsOpen_def onWsMessage_def onWsClose_def onWsError_def
  WebSocketClient_new_def getInstance_def hook_callbacks_def effect_mount_def sendMessage_def
  effect_wsClient_def set_readyState_def init_def

lemmas demo_defs = demo_enc_def logon_ok_def logon_refused_def demo_dec_def app_msg_def
  demo_world_def clMsg_def

lemmas run_defs = model_defs view_def Let_def

lemma log_simps [simp]:
  "sockets (log line w) = sockets w"
  "socket (log line w) = socket w"
  "isLoggedIn (log line w) = isLoggedIn w"
  "isUserLogout (log line w) = isUserLogout w"
  "instance' (log line w) = instance' w"
  "wsClient (log line w) = wsClient w"
  "wsClient_cell (log line w) = wsClient_cell w"
  "message (log line w) = message w"
  "messageQueue (log line w) = messageQueue w"
  "socket_readyState (log line w) = socket_readyState w"
  "isReady (log line w) = isReady w"
  by (simp_all add: log_def isReady_def socket_readyState_def split: option.splits)

lemma socket_readyState_frame [simp]:
  "socket_readyState (w\<lparr>isLoggedIn := b\<rparr>) = socket_readyState w"
  "socket_readyState (w\<lparr>console := c\<rparr>) = socket_readyState w"
  "socket_readyState (w\<lparr>message := m\<rparr>) = socket_readyState w"
  "socket_readyState (w\<lparr>messageQueue := q\<rparr>) = socket_readyState w"
  by (simp_all add: socket_readyState_def split: option.splits)

lemma socket_readyState_eq:
  "socket_readyState w = Some st \<longleftrightarrow>
     (\<exists>i. socket w = Some i \<and> i < length (sockets w) \<and> readyState (sockets w ! i) = st)"
  by (auto simp: socket_readyState_def split: option.splits)

lemma isReady_eq:
  "isReady w \<longleftrightarrow>
     isLoggedIn w \<and>
     (\<exists>i. socket w = Some i \<and> i < length (sockets w) \<and> readyState (sockets w ! i) = OPEN)"
  by (simp add: isReady_def socket_readyState_eq)

section \<open>The loop of the second effect ends when the client is ready\<close>

lemma sendMessage_ready:
  assumes "wsClient w" "isReady w" "socket w = Some i"
  shows "sendMessage enc m w =
     w\<lparr>console := console w @ [''Sending message:'', ''Sending message: Done!''],
       sockets := (sockets w)[i := (sockets w ! i)
                    \<lparr>transmitted := transmitted (sockets w ! i) @ [enc m]\<rparr>]\<rparr>"
  using assms
  by (auto simp: sendMessage_def isReady_def send_def socket_readyState_def log_def
      WebSocket_send_def Let_def split: if_splits)

lemma sendMessage_queued:
  assumes "\<not> (wsClient w \<and> isReady w)"
  shows "sendMessage enc m w =
     w\<lparr>console := console w @ [''Sending message in-queue:''],
       messageQueue := messageQueue w @ [m]\<rparr>"
  using assms by (auto simp: sendMessage_def log_def Let_def)

lemma dequeue_ready:
  assumes "wsClient w" "isReady w" "socket w = Some i"
  shows "\<exists>c. dequeue enc w =
     Some (w\<lparr>console := c, messageQueue := [],
             sockets := (sockets w)[i := (sockets w ! i)
                    \<lparr>transmitted := transmitted (sockets w ! i) @ map enc (messageQueue w)\<rparr>]\<rparr>)"
  using assms
proof (induction "messageQueue w" arbitrary: w)
  case Nil
  have "w\<lparr>console := console w, messageQueue := [], sockets := (sockets w)[i := (sockets w ! i)
                    \<lparr>transmitted := transmitted (sockets w ! i) @ map enc (messageQueue w)\<rparr>]\<rparr> = w"
    using Nil(1)[symmetric] by simp
  moreover have "dequeue enc w = Some w"
    using Nil(1)[symmetric] by (subst dequeue.simps) simp
  ultimately show ?case by metis
next
  case (Cons msg rest)
  let ?w1 = "log ''Sending message de-queue:'' (w\<lparr>messageQueue := rest\<rparr>)"
  let ?w2 = "sendMessage enc msg ?w1"
  have r1: "wsClient ?w1" "isReady ?w1" "socket ?w1 = Some i"
    using Cons.prems by (simp_all add: log_def isReady_eq)
  have w2: "?w2 = ?w1\<lparr>console := console ?w1 @ [''Sending message:'', ''Sending message: Done!''],
       sockets := (sockets ?w1)[i := (sockets ?w1 ! i)
                    \<lparr>transmitted := transmitted (sockets ?w1 ! i) @ [enc msg]\<rparr>]\<rparr>"
    by (rule sendMessage_ready [OF r1])
  have i: "i < length (sockets w)" "readyState (sockets w ! i) = OPEN"
    using Cons.prems by (auto simp: isReady_eq)
  have r2: "wsClient ?w2" "isReady ?w2" "socket ?w2 = Some i" "rest = messageQueue ?w2"
    using Cons.prems i unfolding w2 by (simp_all add: log_def isReady_eq)
  from Cons.hyps(1) [OF r2(4) r2(1,2,3)] obtain c where
    c: "dequeue enc ?w2 = Some (?w2\<lparr>console := c, messageQueue := [],
             sockets := (sockets ?w2)[i := (sockets ?w2 ! i)
                    \<lparr>transmitted := transmitted (sockets ?w2 ! i) @ map enc (messageQueue ?w2)\<rparr>]\<rparr>)"
    by blast
  have "dequeue enc w = dequeue enc ?w2"
    using Cons.hyps(2)[symmetric] by (subst dequeue.simps) simp
  also note c
  finally show ?case
    using i Cons.hyps(2)[symmetric] unfolding w2 by (auto simp: log_def)
qed


lemma effect_wsClient_cases:
  "\<exists>w'. effect_wsClient enc w = Some w' \<and>
     (w' = w \<or>
      (isReady w \<and>
       (\<exists>i c. socket w = Some i \<and>
          w' = w\<lparr>console := c, messageQueue := [],
                  sockets := (sockets w)[i := (sockets w ! i)
                    \<lparr>transmitted := transmitted (sockets w ! i) @ map enc (messageQueue w)\<rparr>]\<rparr>)))"
proof (cases "wsClient w \<and> isReady w \<and> length (messageQueue w) > 0")
  case True
  then obtain i where i: "socket w = Some i" by (auto simp: isReady_eq)
  from dequeue_ready [of w i enc] True i show ?thesis
    by (auto simp: effect_wsClient_def)
next
  case False
  then show ?thesis by (auto simp: effect_wsClient_def)
qed

section \<open>Every event keeps the invariant\<close>

lemma inv_same:
  assumes "inv enc (cbs, w)"
    and "sockets w' = sockets w" "socket w' = socket w" "instance' w' = instance' w"
  shows "inv enc (cbs, w')"
  using assms unfolding inv_def by auto

lemma inv_transmit:
  assumes "inv enc (cbs, w)" "socket_readyState w = Some OPEN" "socket w = Some i"
    and "sockets w' = (sockets w)[i := (sockets w ! i)
                    \<lparr>transmitted := transmitted (sockets w ! i) @ fs\<rparr>]"
    and "socket w' = socket w" "instance' w' = instance' w"
  shows "inv enc (cbs, w')"
  using assms unfolding inv_def socket_readyState_eq
  by (auto simp: nth_list_update)

lemma send_cases:
  "(socket_readyState w \<noteq> Some OPEN \<and> snd (send enc m w) = log ''Sending message:'' w) \<or>
   (socket_readyState w = Some OPEN \<and>
    (\<exists>i. socket w = Some i \<and>
       snd (send enc m w) =
         (log ''Sending message:'' w)
           \<lparr>sockets := (sockets w)[i := (sockets w ! i)
                \<lparr>transmitted := transmitted (sockets w ! i) @ [enc m]\<rparr>]\<rparr>))"
  by (auto simp: send_def socket_readyState_def log_def WebSocket_send_def Let_def
      split: option.splits if_splits)

lemma inv_send:
  assumes "inv enc (cbs, w)"
  shows "inv enc (cbs, snd (send enc m w))"
proof (cases "socket_readyState w = Some OPEN")
  case True
  with send_cases [of w enc m] obtain i where i: "socket w = Some i" and
    e: "snd (send enc m w) =
         (log ''Sending message:'' w)
           \<lparr>sockets := (sockets w)[i := (sockets w ! i)
                \<lparr>transmitted := transmitted (sockets w ! i) @ [enc m]\<rparr>]\<rparr>"
    by auto
  show ?thesis
    by (rule inv_transmit [OF assms True i, of _ "[enc m]"]) (simp_all add: e)
next
  case False
  with send_cases [of w enc m] have "snd (send enc m w) = log ''Sending message:'' w"
    by auto
  then show ?thesis by (intro inv_same [OF assms]) simp_all
qed

lemma inv_sendMessage:
  assumes "inv enc (cbs, w)"
  shows "inv enc (cbs, sendMessage enc m w)"
proof (cases "wsClient w \<and> isReady w")
  case True
  then obtain i where i: "socket w = Some i" by (auto simp: isReady_eq)
  from True have o: "socket_readyState w = Some OPEN" by (simp add: isReady_def)
  show ?thesis
    using True by (intro inv_transmit [OF assms o i, of _ "[enc m]"])
      (simp_all add: sendMessage_ready [OF _ _ i])
next
  case False
  then show ?thesis by (intro inv_same [OF assms]) (simp_all add: sendMessage_queued)
qed

lemma inv_effect_wsClient:
  assumes "inv enc (cbs, w)"
  shows "\<exists>w'. effect_wsClient enc w = Some w' \<and> inv enc (cbs, w')"
proof -
  from effect_wsClient_cases [of enc w] obtain w' where
    w': "effect_wsClient enc w = Some w'" and
    c: "w' = w \<or>
      (isReady w \<and>
       (\<exists>i c. socket w = Some i \<and>
          w' = w\<lparr>console := c, messageQueue := [],
                  sockets := (sockets w)[i := (sockets w ! i)
                    \<lparr>transmitted := transmitted (sockets w ! i) @ map enc (messageQueue w)\<rparr>]\<rparr>))"
    by blast
  from c have "inv enc (cbs, w')"
  proof
    assume "w' = w" with assms show ?thesis by simp
  next
    assume r: "isReady w \<and>
       (\<exists>i c. socket w = Some i \<and>
          w' = w\<lparr>console := c, messageQueue := [],
                  sockets := (sockets w)[i := (sockets w ! i)
                    \<lparr>transmitted := transmitted (sockets w ! i) @ map enc (messageQueue w)\<rparr>]\<rparr>)"
    then obtain i c where i: "socket w = Some i" and
      e: "w' = w\<lparr>console := c, messageQueue := [],
                  sockets := (sockets w)[i := (sockets w ! i)
                    \<lparr>transmitted := transmitted (sockets w ! i) @ map enc (messageQueue w)\<rparr>]\<rparr>"
      by blast
    from r have o: "socket_readyState w = Some OPEN" by (simp add: isReady_def)
    show ?thesis
      by (intro inv_transmit [OF assms o i, of _ "map enc (messageQueue w)"])
        (simp_all add: e)
  qed
  with w' show ?thesis by blast
qed


lemma WebSocket_close_simps [simp]:
  "readyState (WebSocket_close ws) = (if readyState ws = CLOSED then CLOSED else CLOSING)"
  "transmitted (WebSocket_close ws) = transmitted ws"
  by (simp_all add: WebSocket_close_def split: readyState.split)

lemma inv_log [simp]: "inv enc (cbs, log line w) = inv enc (cbs, w)"
  by (simp add: inv_def log_def)

lemma inv_socket_close:
  assumes "inv enc (cbs, w)"
  shows "inv enc (cbs, socket_close w)"
  using assms unfolding inv_def socket_close_def
  by (auto simp: nth_list_update split: option.splits)

lemma socket_close_closing:
  "socket (socket_close w) = socket w"
  "length (sockets (socket_close w)) = length (sockets w)"
  "socket w = Some i \<Longrightarrow> i < length (sockets w) \<Longrightarrow>
     readyState (sockets (socket_close w) ! i) \<noteq> CONNECTING \<and>
     readyState (sockets (socket_close w) ! i) \<noteq> OPEN"
  by (auto simp: socket_close_def split: option.splits)

lemma inv_drop_handle:
  assumes "inv enc (cbs, w)"
    and "\<And>i. socket w = Some i \<Longrightarrow>
           readyState (sockets w ! i) \<noteq> CONNECTING \<and> readyState (sockets w ! i) \<noteq> OPEN"
  shows "inv enc (cbs, w\<lparr>socket := None\<rparr>)"
proof -
  have "\<And>j. j < length (sockets w) \<Longrightarrow>
          readyState (sockets w ! j) = CLOSING \<or> readyState (sockets w ! j) = CLOSED"
  proof -
    fix j assume j: "j < length (sockets w)"
    show "readyState (sockets w ! j) = CLOSING \<or> readyState (sockets w ! j) = CLOSED"
    proof (cases "socket w = Some j")
      case True
      from assms(2) [OF True] show ?thesis by (cases "readyState (sockets w ! j)") auto
    next
      case False
      with assms(1) j show ?thesis unfolding inv_def by auto
    qed
  qed
  with assms(1) show ?thesis unfolding inv_def by auto
qed

lemma inv_closeSocket:
  assumes "inv enc (cbs, w)"
  shows "inv enc (cbs, closeSocket w)"
proof -
  let ?w1 = "socket_close (log ''Closing connection ...'' w)"
  have 1: "inv enc (cbs, ?w1)" using assms by (simp add: inv_socket_close)
  have 2: "\<And>i. socket ?w1 = Some i \<Longrightarrow>
           readyState (sockets ?w1 ! i) \<noteq> CONNECTING \<and> readyState (sockets ?w1 ! i) \<noteq> OPEN"
  proof -
    fix i assume s: "socket ?w1 = Some i"
    then have s0: "socket (log ''Closing connection ...'' w) = Some i"
      by (simp add: socket_close_closing)
    moreover have "i < length (sockets (log ''Closing connection ...'' w))"
      using assms s0 unfolding inv_def log_def by auto
    ultimately show "readyState (sockets ?w1 ! i) \<noteq> CONNECTING \<and> readyState (sockets ?w1 ! i) \<noteq> OPEN"
      by (rule socket_close_closing(3))
  qed
  show ?thesis
    unfolding closeSocket_def Let_def by (rule inv_drop_handle [OF 1 2])
qed

lemma inv_close:
  assumes "inv enc (cbs, w)"
  shows "inv enc (cbs, close w)"
  unfolding close_def by (rule inv_closeSocket [OF assms])

lemma inv_initSocket:
  assumes "inv enc (cbs, w)" "socket w = None" "instance' w"
  shows "inv enc (cbs, initSocket w)"
  using assms unfolding inv_def initSocket_def log_def new_WebSocket_def Let_def
  by (auto simp: nth_append)

lemma inv_set_closed:
  assumes "inv enc (cbs, w)" "i < length (sockets w)"
  shows "inv enc (cbs, set_readyState i CLOSED w)"
  using assms unfolding inv_def set_readyState_def
  by (auto simp: nth_list_update)


lemma inv_callbacks:
  assumes "inv enc (cbs, w)"
  shows "cbs = no_callbacks \<or> cbs = hook_callbacks"
  using assms unfolding inv_def by auto

lemma passive_callbacks:
  assumes "cbs = no_callbacks \<or> cbs = hook_callbacks"
  shows "call_opt (onOpen cbs) w = w"
    and "call_opt (onClose cbs) w = w"
    and "call_opt (onError cbs) w = w \<or> call_opt (onError cbs) w = log ''WebSocket error:'' w"
    and "call_opt (map_option (\<lambda>f. f msg) (onMessage cbs)) w = w \<or>
         call_opt (map_option (\<lambda>f. f msg) (onMessage cbs)) w =
           (log ''Got message'' w)\<lparr>message := Some msg\<rparr>"
  using assms by (auto simp: call_opt_def no_callbacks_def hook_callbacks_def)

lemma inv_onMessage_callback:
  assumes "inv enc (cbs, w)"
  shows "inv enc (cbs, call_opt (map_option (\<lambda>f. f msg) (onMessage cbs)) w)"
  using passive_callbacks(4) [OF inv_callbacks [OF assms], of msg w]
  by (auto intro!: inv_same [OF assms] simp: log_def)

lemma inv_onWsOpen:
  assumes "inv enc (cbs, w)" "i < length (sockets w)" "readyState (sockets w ! i) = CONNECTING"
  shows "\<exists>c. snd (onWsOpen enc cbs (set_readyState i OPEN w)) =
           w\<lparr>console := c,
             sockets := (sockets w)[i := \<lparr>readyState = OPEN, transmitted = [enc clMsg]\<rparr>]\<rparr>"
    and "inv enc (cbs, snd (onWsOpen enc cbs (set_readyState i OPEN w)))"
proof -
  have cur: "socket w = Some i" and tr: "transmitted (sockets w ! i) = []"
    using assms unfolding inv_def by auto
  have sk: "sockets w ! i = \<lparr>readyState = CONNECTING, transmitted = []\<rparr>"
    using assms(3) tr by (cases "sockets w ! i") simp
  let ?w1 = "log ''WebSocket connection opened'' (set_readyState i OPEN w)"
  have s: "send enc clMsg ?w1 =
      (Returned None,
       w\<lparr>console := console w @ [''WebSocket connection opened'', ''Sending message:''],
         sockets := (sockets w)[i := \<lparr>readyState = OPEN, transmitted = [enc clMsg]\<rparr>]\<rparr>)"
    using cur assms(2) sk
    by (simp add: send_def log_def set_readyState_def socket_readyState_def WebSocket_send_def
        Let_def)
  have e: "snd (onWsOpen enc cbs (set_readyState i OPEN w)) =
      w\<lparr>console := console w @ [''WebSocket connection opened'', ''Sending message:''],
         sockets := (sockets w)[i := \<lparr>readyState = OPEN, transmitted = [enc clMsg]\<rparr>]\<rparr>"
    by (simp add: onWsOpen_def initiateLogon_def Let_def s
        passive_callbacks(1) [OF inv_callbacks [OF assms(1)]])
  show "\<exists>c. snd (onWsOpen enc cbs (set_readyState i OPEN w)) =
           w\<lparr>console := c,
             sockets := (sockets w)[i := \<lparr>readyState = OPEN, transmitted = [enc clMsg]\<rparr>]\<rparr>"
    using e by blast
  show "inv enc (cbs, snd (onWsOpen enc cbs (set_readyState i OPEN w)))"
    using assms cur unfolding e inv_def by (auto simp: nth_list_update)
qed

lemma inv_onWsMessage:
  assumes "inv enc (cbs, w)"
  shows "inv enc (cbs, snd (onWsMessage dec cbs frame w))"
proof (cases "dec frame")
  case None
  then show ?thesis using assms by (simp add: onWsMessage_def)
next
  case (Some msg)
  let ?w1 = "case logonResult msg of
               None \<Rightarrow> w
             | Some r \<Rightarrow>
                 (let wa = (if resultCode r = 0
                            then log ''Logged in successfully!'' (w\<lparr>isLoggedIn := True\<rparr>)
                            else w)
                  in if resultCode r \<noteq> 0
                     then socket_close (log ''Login failed!'' wa)
                     else wa)"
  have li: "inv enc (cbs, w\<lparr>isLoggedIn := True\<rparr>)"
    by (rule inv_same [OF assms]) simp_all
  have 1: "inv enc (cbs, ?w1)"
    using assms li by (auto simp: Let_def inv_socket_close split: option.splits)
  let ?w2 = "if loggedOff msg \<noteq> None then log ''Logged Off ...'' ?w1 else ?w1"
  have 2: "inv enc (cbs, ?w2)" using 1 by simp
  have "snd (onWsMessage dec cbs frame w) =
          call_opt (map_option (\<lambda>f. f msg) (onMessage cbs)) ?w2"
    using Some by (simp add: onWsMessage_def Let_def)
  then show ?thesis using inv_onMessage_callback [OF 2] by simp
qed

lemma inv_onWsClose:
  assumes "inv enc (cbs, w)" "i < length (sockets w)"
  shows "inv enc (cbs, onWsClose cbs (set_readyState i CLOSED w))"
proof -
  let ?w1 = "log ''WebSocket connection closed'' (set_readyState i CLOSED w)"
  have 1: "inv enc (cbs, ?w1)" using inv_set_closed [OF assms] by simp
  show ?thesis
  proof (cases "isUserLogout ?w1")
    case True
    then show ?thesis using 1 by (simp add: onWsClose_def Let_def)
  next
    case False
    let ?w4 = "log ''Reconnecting ...'' (closeSocket ?w1)"
    have 4: "inv enc (cbs, ?w4)" using inv_closeSocket [OF 1] by simp
    have n: "socket ?w4 = None" by (simp add: closeSocket_def log_def Let_def)
    have "instance' w" using assms unfolding inv_def by auto
    then have i: "instance' ?w4"
      by (simp add: closeSocket_def socket_close_def log_def set_readyState_def Let_def
          split: option.splits)
    have "onWsClose cbs (set_readyState i CLOSED w) = initSocket ?w4"
      using False
      by (simp add: onWsClose_def Let_def passive_callbacks(2) [OF inv_callbacks [OF assms(1)]])
    then show ?thesis using inv_initSocket [OF 4 n i] by simp
  qed
qed

lemma inv_onWsError:
  assumes "inv enc (cbs, w)"
  shows "inv enc (cbs, onWsError cbs w)"
  using passive_callbacks(3) [OF inv_callbacks [OF assms], of "log ''WebSocket error:'' w"]
  unfolding onWsError_def
  by (auto intro!: inv_same [OF assms] simp: log_def)

lemma inv_effect_mount:
  assumes "inv enc (cbs, w)"
  shows "inv enc (effect_mount w)"
proof (cases "instance' w")
  case True
  have "inv enc (hook_callbacks, w)" using assms unfolding inv_def by auto
  then show ?thesis
    using True
    by (auto simp: effect_mount_def getInstance_def Let_def intro!: inv_same [of enc _ w])
next
  case False
  then have n: "socket w = None" using assms unfolding inv_def by auto
  have 0: "inv enc (hook_callbacks, w\<lparr>instance' := True\<rparr>)"
    using assms False unfolding inv_def by auto
  have 1: "inv enc (hook_callbacks, initSocket (w\<lparr>instance' := True\<rparr>))"
    by (rule inv_initSocket [OF 0]) (simp_all add: n)
  show ?thesis
    using False
    by (auto simp: effect_mount_def getInstance_def WebSocketClient_new_def initSocket_def
        log_def Let_def intro!: inv_same [OF 1])
qed

lemma inv_init: "inv enc init"
  by (simp add: inv_def init_def)

lemma inv_step:
  assumes "inv enc s"
  shows "\<exists>s'. step enc dec e s = Some s' \<and> inv enc s'"
proof -
  obtain cbs w where s: "s = (cbs, w)" by (cases s)
  have i: "inv enc (cbs, w)" using assms s by simp
  show ?thesis
  proof (cases e)
    case Mount
    obtain cbs' w' where m: "effect_mount w = (cbs', w')" by (cases "effect_mount w")
    have "inv enc (cbs', w')" using inv_effect_mount [OF i] m by simp
    from inv_effect_wsClient [OF this] show ?thesis
      using i by (auto simp: s Mount m)
  next
    case Render
    have "inv enc (cbs, w\<lparr>wsClient := wsClient_cell w\<rparr>)"
      by (rule inv_same [OF i]) simp_all
    from inv_effect_wsClient [OF this] show ?thesis
      using i by (auto simp: s Render)
  next
    case (SendMessage m)
    then show ?thesis using inv_sendMessage [OF i] by (simp add: s)
  next
    case (UserSend m)
    then show ?thesis using inv_send [OF i] i by (simp add: s)
  next
    case UserClose
    then show ?thesis using inv_close [OF i] i by (simp add: s)
  next
    case (WsOpen n)
    then show ?thesis using inv_onWsOpen(2) [OF i] i by (simp add: s)
  next
    case (WsMessage n frame)
    then show ?thesis using inv_onWsMessage [OF i] i by (simp add: s)
  next
    case (WsClose n)
    then show ?thesis using inv_onWsClose [OF i] i by (simp add: s)
  next
    case (WsError n)
    then show ?thesis using inv_onWsError [OF i] i by (simp add: s)
  qed
qed

lemma run_snoc:
  "run enc dec (es @ [e]) s =
     (case run enc dec es s of None \<Rightarrow> None | Some s' \<Rightarrow> step enc dec e s')"
  by (induction es arbitrary: s) (auto split: option.splits)

lemma inv_run:
  assumes "inv enc s"
  shows "\<exists>s'. run enc dec es s = Some s' \<and> inv enc s'"
  using assms
proof (induction es arbitrary: s)
  case Nil
  then show ?case by simp
next
  case (Cons e es)
  from inv_step [OF Cons.prems, of dec e] obtain s1 where
    "step enc dec e s = Some s1" "inv enc s1" by blast
  with Cons.IH [of s1] show ?case by simp
qed


section \<open>The two flags and the queue\<close>

text \<open>
  No event takes \<^verbatim>\<open>isLoggedIn\<close> back to false, and none changes \<^verbatim>\<open>isUserLogout\<close>, which
  therefore is false in every reachable state. Once the hook has rendered with the
  client (so that \<^verbatim>\<open>wsClient\<close> is what \<^verbatim>\<open>setWsClient\<close> was given), no event removes a
  message from the queue.
\<close>

lemma hook_step_fields:
  assumes "cbs = no_callbacks \<or> cbs = hook_callbacks"
    and "step enc dec e (cbs, w) = Some (cbs', w')"
  shows "(isLoggedIn w \<longrightarrow> isLoggedIn w') \<and> isUserLogout w' = isUserLogout w"
proof (cases e)
  case Mount
  from effect_wsClient_cases [of enc "(getInstance w)\<lparr>wsClient_cell := True\<rparr>"]
  show ?thesis using assms(2) Mount
    by (auto simp: effect_mount_def getInstance_def WebSocketClient_new_def initSocket_def
        Let_def split: if_splits)
next
  case Render
  from effect_wsClient_cases [of enc "w\<lparr>wsClient := wsClient_cell w\<rparr>"]
  show ?thesis using assms(2) Render by (auto split: if_splits)
next
  case (SendMessage m)
  show ?thesis
  proof (cases "wsClient w \<and> isReady w")
    case True
    then obtain i where "socket w = Some i" by (auto simp: isReady_eq)
    with True assms(2) SendMessage show ?thesis by (auto simp: sendMessage_ready)
  next
    case False
    with assms(2) SendMessage show ?thesis by (auto simp: sendMessage_queued)
  qed
next
  case (UserSend m)
  with assms(2) send_cases [of w enc m] show ?thesis
    by (auto split: if_splits)
next
  case UserClose
  with assms(2) show ?thesis
    by (auto simp: close_def closeSocket_def socket_close_def Let_def
        split: if_splits option.splits)
next
  case (WsOpen n)
  with assms show ?thesis
    by (auto simp: onWsOpen_def initiateLogon_def send_def set_readyState_def call_opt_def
        no_callbacks_def hook_callbacks_def Let_def
        split: if_splits option.splits sum.splits)
next
  case (WsMessage n frame)
  with assms show ?thesis
    by (auto simp: onWsMessage_def socket_close_def call_opt_def
        no_callbacks_def hook_callbacks_def Let_def
        split: if_splits option.splits)
next
  case (WsClose n)
  with assms show ?thesis
    by (auto simp: onWsClose_def closeSocket_def initSocket_def socket_close_def
        set_readyState_def call_opt_def no_callbacks_def hook_callbacks_def Let_def
        split: if_splits option.splits)
next
  case (WsError n)
  with assms show ?thesis
    by (auto simp: onWsError_def call_opt_def no_callbacks_def hook_callbacks_def
        split: if_splits)
qed

lemma queue_only_grows_after_render:
  assumes "cbs = no_callbacks \<or> cbs = hook_callbacks"
    and "wsClient w = wsClient_cell w"
    and "step enc dec e (cbs, w) = Some (cbs', w')"
  shows "\<exists>q. messageQueue w' = messageQueue w @ q"
proof (cases e)
  case Mount
  show ?thesis using assms(2,3) Mount
    by (auto simp: effect_mount_def getInstance_def WebSocketClient_new_def initSocket_def
        effect_wsClient_def Let_def split: if_splits)
next
  case Render
  show ?thesis using assms(2,3) Render by auto
next
  case (SendMessage m)
  show ?thesis
  proof (cases "wsClient w \<and> isReady w")
    case True
    then obtain i where "socket w = Some i" by (auto simp: isReady_eq)
    with True assms(3) SendMessage show ?thesis by (auto simp: sendMessage_ready)
  next
    case False
    with assms(3) SendMessage show ?thesis by (auto simp: sendMessage_queued)
  qed
next
  case (UserSend m)
  with assms(3) send_cases [of w enc m] show ?thesis
    by (auto split: if_splits)
next
  case UserClose
  with assms(3) show ?thesis
    by (auto simp: close_def closeSocket_def socket_close_def Let_def
        split: if_splits option.splits)
next
  case (WsOpen n)
  with assms show ?thesis
    by (auto simp: onWsOpen_def initiateLogon_def send_def set_readyState_def call_opt_def
        no_callbacks_def hook_callbacks_def Let_def
        split: if_splits option.splits sum.splits)
next
  case (WsMessage n frame)
  with assms show ?thesis
    by (auto simp: onWsMessage_def socket_close_def call_opt_def
        no_callbacks_def hook_callbacks_def Let_def
        split: if_splits option.splits)
next
  case (WsClose n)
  with assms show ?thesis
    by (auto simp: onWsClose_def closeSocket_def initSocket_def socket_close_def
        set_readyState_def call_opt_def no_callbacks_def hook_callbacks_def Let_def
        split: if_splits option.splits)
next
  case (WsError n)
  with assms show ?thesis
    by (auto simp: onWsError_def call_opt_def no_callbacks_def hook_callbacks_def
        split: if_splits)
qed

lemma isUserLogout_never_set:
  "run enc dec es init = Some (cbs, w) \<Longrightarrow> \<not> isUserLogout w"
proof (induction es arbitrary: cbs w rule: rev_induct)
  case Nil
  then show ?case by (auto simp: init_def)
next
  case (snoc e es)
  from inv_run [OF inv_init, of enc dec es] obtain cbs1 w1 where
    r: "run enc dec es init = Some (cbs1, w1)" and i: "inv enc (cbs1, w1)"
    by (cases "the (run enc dec es init)") auto
  from snoc.prems r have st: "step enc dec e (cbs1, w1) = Some (cbs, w)"
    by (simp add: run_snoc)
  from hook_step_fields [OF inv_callbacks [OF i] st] snoc.IH [OF r]
  show ?case by simp
qed

section \<open>The claims\<close>

subsection \<open>C1: the queue on a successful logon\<close>

text \<open>
  C1 says that on a logon-result with a success code the session becomes authenticated
  and every queued message is handed to the transport in submission order, leaving the
  queue empty. The program does the first and not the second. Mount the hook, let it
  render, submit \<open>m1\<close> and \<open>m2\<close> while the socket is connecting, let the socket open
  and the server accept the logon: \<^verbatim>\<open>isLoggedIn\<close> is true, the queue still holds
  \<open>m1\<close> and \<open>m2\<close>, and the socket has transmitted the logon only. The effect that
  empties the queue depends on \<^verbatim>\<open>[wsClient]\<close>, which does not change when the logon
  succeeds, so it does not run (and by \<open>queue_only_grows_after_render\<close> nothing else
  empties the queue later). A message \<open>m3\<close> submitted afterwards is transmitted at
  once, ahead of the two that wait.
\<close>

theorem logon_success_leaves_queue:
  "map_option view
     (run enc (dec(frame := Some \<lparr>logonResult = Some \<lparr>resultCode = 0\<rparr>, loggedOff = None\<rparr>))
        [Mount, Render, SendMessage m1, SendMessage m2, WsOpen 0, WsMessage 0 frame] init)
     = Some \<lparr>loggedIn = True, userLogout = False, ready = True, handle = Some 0,
             states = [OPEN], frames = [[enc clMsg]], queue = [m1, m2]\<rparr> \<and>
   map_option view
     (run enc (dec(frame := Some \<lparr>logonResult = Some \<lparr>resultCode = 0\<rparr>, loggedOff = None\<rparr>))
        [Mount, Render, SendMessage m1, SendMessage m2, WsOpen 0, WsMessage 0 frame,
         SendMessage m3] init)
     = Some \<lparr>loggedIn = True, userLogout = False, ready = True, handle = Some 0,
             states = [OPEN], frames = [[enc clMsg, enc m3]], queue = [m1, m2]\<rparr>"
  by (simp add: run_defs)

subsection \<open>C2: close() and the close event that follows\<close>

text \<open>
  C2 says that after \<^verbatim>\<open>close()\<close> no new connection is attempted whatever close events
  follow, because \<^verbatim>\<open>close()\<close> sets the user-logout flag. \<^verbatim>\<open>close()\<close> only calls
  \<^verbatim>\<open>closeSocket()\<close>; nothing ever assigns \<^verbatim>\<open>isUserLogout\<close>
  (\<open>isUserLogout_never_set\<close>). After mount, open and
  \<^verbatim>\<open>close()\<close> the flag is false, the handle is gone and the socket is closing; when its
  close event arrives the guard in \<^verbatim>\<open>onWsClose\<close> passes and a second socket is opened.
\<close>

theorem close_then_close_event_reconnects:
  "map_option view (run enc dec [Mount, WsOpen 0, UserClose] init)
     = Some \<lparr>loggedIn = False, userLogout = False, ready = False, handle = None,
             states = [CLOSING], frames = [[enc clMsg]], queue = []\<rparr> \<and>
   map_option view (run enc dec [Mount, WsOpen 0, UserClose, WsClose 0] init)
     = Some \<lparr>loggedIn = False, userLogout = False, ready = False, handle = Some 1,
             states = [CLOSED, CONNECTING], frames = [[enc clMsg], []], queue = []\<rparr>"
  by (simp add: run_defs)

subsection \<open>C3: an unexpected close\<close>

text \<open>
  C3 says that on an unexpected close the handle is discarded, authenticated is reset
  to false, exactly one new transport is opened and the queue is kept. The handle, the
  one new socket and the queue are as claimed, and \<^verbatim>\<open>isReady\<close> reads false while the
  new socket connects; but \<^verbatim>\<open>isLoggedIn\<close> is not reset (\<open>hook_step_fields\<close>: no event
  resets it). After a successful logon on
  socket 0 and its close, \<^verbatim>\<open>isLoggedIn\<close> is still true; \<open>m1\<close>, submitted while socket
  1 connects, is queued. As soon as socket 1 opens \<^verbatim>\<open>isReady\<close> is true again, with no
  logon-result received on socket 1, and \<open>m2\<close> is transmitted on it right behind the
  logon.
\<close>

theorem reconnect_keeps_isLoggedIn:
  "map_option view
     (run enc (dec(frame := Some \<lparr>logonResult = Some \<lparr>resultCode = 0\<rparr>, loggedOff = None\<rparr>))
        [Mount, Render, WsOpen 0, WsMessage 0 frame, WsClose 0, SendMessage m1] init)
     = Some \<lparr>loggedIn = True, userLogout = False, ready = False, handle = Some 1,
             states = [CLOSED, CONNECTING], frames = [[enc clMsg], []], queue = [m1]\<rparr> \<and>
   map_option view
     (run enc (dec(frame := Some \<lparr>logonResult = Some \<lparr>resultCode = 0\<rparr>, loggedOff = None\<rparr>))
        [Mount, Render, WsOpen 0, WsMessage 0 frame, WsClose 0, SendMessage m1, WsOpen 1,
         SendMessage m2] init)
     = Some \<lparr>loggedIn = True, userLogout = False, ready = True, handle = Some 1,
             states = [CLOSED, OPEN], frames = [[enc clMsg], [enc clMsg, enc m2]],
             queue = [m1]\<rparr>"
  by (simp add: run_defs)

subsection \<open>C4: a refused logon\<close>

text \<open>
  C4 says that on a logon-result with a non-zero code the transport is closed, no flush
  is performed and no reconnect is attempted for this failure. The last part fails: the
  handler calls \<^verbatim>\<open>close()\<close> on the socket, and the close event this causes goes through
  \<^verbatim>\<open>onWsClose\<close>, whose only guard is the user-logout flag. With the codec of the
  scenarios: after the refusal socket 0 is closing, and after its close event a second
  socket is connecting.
\<close>

theorem logon_failure_reconnect_counterexample:
  "map_option view (run demo_enc demo_dec [Mount, WsOpen 0, WsMessage 0 1] init)
     = Some \<lparr>loggedIn = False, userLogout = False, ready = False, handle = Some 0,
             states = [CLOSING], frames = [[0]], queue = []\<rparr> \<and>
   map_option view (run demo_enc demo_dec [Mount, WsOpen 0, WsMessage 0 1, WsClose 0] init)
     = Some \<lparr>loggedIn = False, userLogout = False, ready = False, handle = Some 1,
             states = [CLOSED, CONNECTING], frames = [[0], []], queue = []\<rparr>"
  by (simp add: run_defs demo_defs)

text \<open>
  C4 as amended: when a logon-result with a non-zero code arrives on the current, open
  socket, the message handler starts closing that socket, keeps the handle, transmits
  nothing, leaves the queue and \<^verbatim>\<open>isLoggedIn\<close> as they are and opens no socket; the
  close event of that socket is then handled like any other close with the user-logout
  flag unset: the socket is dropped and one new socket is opened, the queue still
  untouched.
\<close>

theorem logon_failure_closes_then_close_event_reconnects:
  assumes "dec frame = Some msg" "logonResult msg = Some r" "resultCode r \<noteq> 0"
    and "socket w = Some i" "i < length (sockets w)" "readyState (sockets w ! i) = OPEN"
    and "\<not> isUserLogout w"
  shows "\<exists>w1 w2.
      step enc dec (WsMessage i frame) (hook_callbacks, w) = Some (hook_callbacks, w1) \<and>
      sockets w1 = (sockets w)[i := (sockets w ! i)\<lparr>readyState := CLOSING\<rparr>] \<and>
      socket w1 = Some i \<and> isLoggedIn w1 = isLoggedIn w \<and> messageQueue w1 = messageQueue w \<and>
      step enc dec (WsClose i) (hook_callbacks, w1) = Some (hook_callbacks, w2) \<and>
      sockets w2 = (sockets w)[i := (sockets w ! i)\<lparr>readyState := CLOSED\<rparr>] @ [new_WebSocket] \<and>
      socket w2 = Some (length (sockets w)) \<and> messageQueue w2 = messageQueue w"
  using assms
  by (simp add: model_defs Let_def)

text \<open>The amended C4 at frame 1 of the scenarios, on an open socket with a queued message.\<close>

theorem logon_failure_closes_then_close_event_reconnects_witness:
  "\<exists>w1 w2.
      step demo_enc demo_dec (WsMessage 0 1) (hook_callbacks, demo_world OPEN) =
        Some (hook_callbacks, w1) \<and>
      map readyState (sockets w1) = [CLOSING] \<and> socket w1 = Some 0 \<and>
      messageQueue w1 = [app_msg 5] \<and>
      step demo_enc demo_dec (WsClose 0) (hook_callbacks, w1) = Some (hook_callbacks, w2) \<and>
      map readyState (sockets w2) = [CLOSED, CONNECTING] \<and> socket w2 = Some 1 \<and>
      messageQueue w2 = [app_msg 5]"
proof -
  have "demo_dec 1 = Some logon_refused" "logonResult logon_refused = Some \<lparr>resultCode = 7\<rparr>"
    "resultCode \<lparr>resultCode = 7\<rparr> \<noteq> 0" "socket (demo_world OPEN) = Some 0"
    "0 < length (sockets (demo_world OPEN))" "readyState (sockets (demo_world OPEN) ! 0) = OPEN"
    "\<not> isUserLogout (demo_world OPEN)"
    by (simp_all add: demo_defs)
  from logon_failure_closes_then_close_event_reconnects
         [where dec = demo_dec and frame = 1 and msg = logon_refused and w = "demo_world OPEN"
            and i = 0 and enc = demo_enc, OF this]
  obtain w1 w2 where
    "step demo_enc demo_dec (WsMessage 0 1) (hook_callbacks, demo_world OPEN) =
        Some (hook_callbacks, w1)"
    "sockets w1 =
       (sockets (demo_world OPEN))[0 := (sockets (demo_world OPEN) ! 0)\<lparr>readyState := CLOSING\<rparr>]"
    "socket w1 = Some 0" "messageQueue w1 = messageQueue (demo_world OPEN)"
    "step demo_enc demo_dec (WsClose 0) (hook_callbacks, w1) = Some (hook_callbacks, w2)"
    "sockets w2 =
       (sockets (demo_world OPEN))[0 := (sockets (demo_world OPEN) ! 0)\<lparr>readyState := CLOSED\<rparr>]
         @ [new_WebSocket]"
    "socket w2 = Some (length (sockets (demo_world OPEN)))"
    "messageQueue w2 = messageQueue (demo_world OPEN)"
    by blast
  then show ?thesis
    by (intro exI [of _ w1] exI [of _ w2]) (simp add: demo_world_def new_WebSocket_def)
qed

subsection \<open>C5: application messages and authentication\<close>

text \<open>
  C5 says that in every reachable state no application message is handed to the
  transport while authenticated is false, the logon message excepted. The hook does
  test \<^verbatim>\<open>isReady\<close> before it transmits, but \<^verbatim>\<open>isReady\<close> rests on \<^verbatim>\<open>isLoggedIn\<close>, which
  a close does not reset (the defect of C3), so the test passes on a transport that
  has not been authenticated. After a successful logon on socket 0 and its close,
  socket 1 opens and the logon is sent on it: \<^verbatim>\<open>isReady\<close> is true at once. No frame
  has arrived on socket 1, so no logon-result has, and \<^verbatim>\<open>sendMessage(m)\<close> hands
  \<open>m\<close> to socket 1 right behind the logon.
\<close>

theorem message_on_unauthenticated_reconnect:
  "map_option view
     (run enc (dec(frame := Some \<lparr>logonResult = Some \<lparr>resultCode = 0\<rparr>, loggedOff = None\<rparr>))
        [Mount, Render, WsOpen 0, WsMessage 0 frame, WsClose 0, WsOpen 1] init)
     = Some \<lparr>loggedIn = True, userLogout = False, ready = True, handle = Some 1,
             states = [CLOSED, OPEN], frames = [[enc clMsg], [enc clMsg]], queue = []\<rparr> \<and>
   map_option view
     (run enc (dec(frame := Some \<lparr>logonResult = Some \<lparr>resultCode = 0\<rparr>, loggedOff = None\<rparr>))
        [Mount, Render, WsOpen 0, WsMessage 0 frame, WsClose 0, WsOpen 1, SendMessage m] init)
     = Some \<lparr>loggedIn = True, userLogout = False, ready = True, handle = Some 1,
             states = [CLOSED, OPEN], frames = [[enc clMsg], [enc clMsg, enc m]], queue = []\<rparr>"
  by (simp add: run_defs)

subsection \<open>C6: the logon is the first frame on every socket\<close>



subsection \<open>C7: a frame that does not decode\<close>

text \<open>
  C7 says that a decode failure is caught and logged, the frame is dropped and the
  session continues unchanged. The state is indeed unchanged, so later frames are
  handled as before; but \<^verbatim>\<open>onWsMessage\<close> decodes outside any \<^verbatim>\<open>try\<close>, so the exception
  is not caught and the handler logs nothing: with any decoder that fails on the
  frame, the promise is rejected and the state, console included, is the one before.
  (The \<^verbatim>\<open>try\<close>/\<^verbatim>\<open>catch\<close> that reports a decoding error is in the hook's \<^verbatim>\<open>onMessage\<close>, which
  is called only after decoding has succeeded.)
\<close>

theorem decode_failure_rejects:
  "onWsMessage (dec(frame := None)) cbs frame w = (Rejected DecodeError, w)"
  by (simp add: onWsMessage_def)

subsection \<open>C8: every decoded message reaches the subscriber\<close>

text \<open>
  C8 says that every message that decodes, control messages included, is forwarded to
  the subscriber's \<^verbatim>\<open>onMessage\<close>. With a callback in the slot, the handler ends by
  calling it with the decoded message, whatever the message holds.
\<close>

theorem onMessage_gets_every_message:
  "dec frame = Some msg \<Longrightarrow> onMessage cbs = Some cb \<Longrightarrow>
   \<exists>w'. onWsMessage dec cbs frame w = (Fulfilled, cb msg w')"
  unfolding onWsMessage_def call_opt_def Let_def by (simp split: option.split) blast

text \<open>C8 for the hook as subscriber and a refused logon: the hook's state holds the message.\<close>

theorem onMessage_gets_every_message_witness:
  "demo_dec 1 = Some logon_refused \<and>
   onMessage (hook_callbacks :: (unit ServerMsg, (nat, unit, nat) world) callbacks) =
     Some (\<lambda>msg w. (log ''Got message'' w)\<lparr>message := Some msg\<rparr>) \<and>
   fst (onWsMessage demo_dec hook_callbacks 1 (demo_world OPEN)) = Fulfilled \<and>
   message (snd (onWsMessage demo_dec hook_callbacks 1 (demo_world OPEN))) = Some logon_refused"
proof -
  have d: "demo_dec 1 = Some logon_refused" by (simp add: demo_dec_def)
  have c: "onMessage (hook_callbacks :: (unit ServerMsg, (nat, unit, nat) world) callbacks) =
     Some (\<lambda>msg w. (log ''Got message'' w)\<lparr>message := Some msg\<rparr>)"
    by (simp add: hook_callbacks_def)
  from onMessage_gets_every_message
         [of demo_dec 1 logon_refused hook_callbacks
             "\<lambda>msg w. (log ''Got message'' w)\<lparr>message := Some msg\<rparr>" "demo_world OPEN", OF d c]
  show ?thesis using d c by (auto simp: log_def)
qed

subsection \<open>C9: send returns, it does not throw\<close>

text \<open>
  C9 says that the client's \<^verbatim>\<open>send\<close> never throws: when the socket is not OPEN it returns
  a \<^verbatim>\<open>ConnectionNotReadyError\<close> instead of buffering or throwing, and otherwise it
  encodes and transmits the message. In the first case nothing but the console
  changes; in the second the encoded message is appended to what the current socket
  has transmitted and nothing is returned.
\<close>

theorem send_never_throws:
  "(\<forall>e. fst (send enc m w) \<noteq> Threw e) \<and>
   (socket_readyState w \<noteq> Some OPEN \<longrightarrow>
      send enc m w =
        (Returned (Some (ConnectionNotReadyError ''Connection is not ready'')),
         log ''Sending message:'' w)) \<and>
   (socket_readyState w = Some OPEN \<longrightarrow>
      (\<exists>i. socket w = Some i \<and>
           send enc m w =
             (Returned None,
              (log ''Sending message:'' w)
                \<lparr>sockets := (sockets w)[i := (sockets w ! i)
                     \<lparr>transmitted := transmitted (sockets w ! i) @ [enc m]\<rparr>]\<rparr>)))"
  by (auto simp: send_def socket_readyState_def log_def WebSocket_send_def Let_def
      split: option.splits if_splits)

text \<open>C9 on a connecting socket and on an open one.\<close>

theorem send_never_throws_witness:
  "send demo_enc (app_msg 5) (demo_world CONNECTING) =
     (Returned (Some (ConnectionNotReadyError ''Connection is not ready'')),
      log ''Sending message:'' (demo_world CONNECTING)) \<and>
   fst (send demo_enc (app_msg 5) (demo_world OPEN)) = Returned None \<and>
   map transmitted (sockets (snd (send demo_enc (app_msg 5) (demo_world OPEN)))) = [[0, 7]]"
  using send_never_throws [of demo_enc "app_msg 5" "demo_world CONNECTING"]
        send_never_throws [of demo_enc "app_msg 5" "demo_world OPEN"]
  by (simp add: socket_readyState_def demo_defs log_def)

subsection \<open>C10: the state is updated before the subscriber is called\<close>

text \<open>
  C10 says that for a frame with a logon-result the control content is processed
  before the subscriber's \<^verbatim>\<open>onMessage\<close> is called for that frame, so that a subscriber
  that sees a successful logon-result sees \<^verbatim>\<open>isReady\<close> true while the socket is open.
  The callback is applied to a state \<open>w'\<close> in which, for code 0, \<^verbatim>\<open>isLoggedIn\<close> is set
  and \<^verbatim>\<open>isReady\<close> holds exactly if the socket was open, and in which, for any other
  code, \<^verbatim>\<open>close()\<close> has been called on the current socket.
\<close>

theorem control_before_callback:
  assumes "dec frame = Some msg" "logonResult msg = Some r" "onMessage cbs = Some cb"
  shows "\<exists>w'. onWsMessage dec cbs frame w = (Fulfilled, cb msg w') \<and>
     socket w' = socket w \<and>
     (resultCode r = 0 \<longrightarrow>
        isLoggedIn w' \<and> sockets w' = sockets w \<and>
        (isReady w' \<longleftrightarrow> socket_readyState w = Some OPEN)) \<and>
     (resultCode r \<noteq> 0 \<longrightarrow>
        isLoggedIn w' = isLoggedIn w \<and> sockets w' = sockets (socket_close w) \<and>
        (socket_readyState w = Some OPEN \<longrightarrow> socket_readyState w' = Some CLOSING))"
proof (cases "resultCode r = 0")
  case True
  let ?w1 = "log ''Logged in successfully!'' (w\<lparr>isLoggedIn := True\<rparr>)"
  let ?w' = "if loggedOff msg \<noteq> None then log ''Logged Off ...'' ?w1 else ?w1"
  have "onWsMessage dec cbs frame w = (Fulfilled, cb msg ?w')"
    using assms True by (simp add: onWsMessage_def call_opt_def Let_def)
  moreover have "socket ?w' = socket w" "isLoggedIn ?w'" "sockets ?w' = sockets w"
    "isReady ?w' \<longleftrightarrow> socket_readyState w = Some OPEN"
    by (simp_all add: isReady_def)
  ultimately show ?thesis using True by blast
next
  case False
  let ?w1 = "socket_close (log ''Login failed!'' w)"
  let ?w' = "if loggedOff msg \<noteq> None then log ''Logged Off ...'' ?w1 else ?w1"
  have "onWsMessage dec cbs frame w = (Fulfilled, cb msg ?w')"
    using assms False by (simp add: onWsMessage_def call_opt_def Let_def)
  moreover have "socket ?w' = socket w" "isLoggedIn ?w' = isLoggedIn w"
    "sockets ?w' = sockets (socket_close w)"
    "socket_readyState w = Some OPEN \<longrightarrow> socket_readyState ?w' = Some CLOSING"
    by (auto simp: socket_close_def socket_readyState_def WebSocket_close_def
        split: option.splits)
  ultimately show ?thesis using False by blast
qed

text \<open>
  C10 for a subscriber that writes down \<^verbatim>\<open>isReady\<close>: on an accepted logon over an open
  socket it writes ``ready''; on a refused one it writes ``not ready'' and finds the
  socket closing.
\<close>

theorem control_before_callback_witness:
  "onWsMessage demo_dec (no_callbacks\<lparr>onMessage := Some observer\<rparr>) 0 (demo_world OPEN) =
     (Fulfilled,
      (demo_world OPEN)\<lparr>isLoggedIn := True, console := [''Logged in successfully!'', ''ready'']\<rparr>) \<and>
   onWsMessage demo_dec (no_callbacks\<lparr>onMessage := Some observer\<rparr>) 1 (demo_world OPEN) =
     (Fulfilled,
      (demo_world CLOSING)\<lparr>console := [''Login failed!'', ''not ready'']\<rparr>)"
proof -
  have "demo_dec 0 = Some logon_ok" "logonResult logon_ok = Some \<lparr>resultCode = 0\<rparr>"
    "onMessage (no_callbacks\<lparr>onMessage := Some observer\<rparr>) = Some observer"
    by (simp_all add: demo_defs no_callbacks_def)
  from control_before_callback
         [where dec = demo_dec and frame = 0 and msg = logon_ok and cb = observer
            and w = "demo_world OPEN", OF this]
  obtain w' where
    "onWsMessage demo_dec (no_callbacks\<lparr>onMessage := Some observer\<rparr>) 0 (demo_world OPEN) =
       (Fulfilled, observer logon_ok w')"
    "isReady w' \<longleftrightarrow> socket_readyState (demo_world OPEN) = Some OPEN"
    by auto
  then show ?thesis
    by (simp add: onWsMessage_def demo_defs log_def call_opt_def no_callbacks_def observer_def
        isReady_def socket_readyState_def socket_close_def WebSocket_close_def)
qed

end
